theory Spec2Isabelle
  imports Complex_Main "HOL-Library.Sublist"
begin

section \<open>Data model (company/models.py)\<close>

text \<open>
  The dataclasses of \<^verbatim>\<open>models.py\<close> become records. Every dataclass keeps the
  generated \<^verbatim>\<open>__eq__\<close>, which compares the fields by value; record equality in HOL is
  the same comparison. Field names that occur in several classes carry the class name as
  a prefix (\<^verbatim>\<open>Role.name\<close> is \<open>role_name\<close>), and a leading underscore is dropped
  (\<^verbatim>\<open>_categories_ids\<close> is \<open>categories_ids\<close>, \<^verbatim>\<open>Session._current_user\<close> is
  \<open>raw_current_user\<close>).
\<close>

type_synonym date = int
  \<comment> \<open>a \<^verbatim>\<open>datetime.date\<close>, as its ordinal; no function modelled here computes with it\<close>

type_synonym time = int
  \<comment> \<open>a \<^verbatim>\<open>datetime.datetime\<close>, in microseconds (the resolution of the type)\<close>

type_synonym ref = nat
  \<comment> \<open>the identity of a \<^verbatim>\<open>Category\<close> object\<close>

record permission =
  perm_code :: string
  perm_description :: "string option"

record role =
  role_name :: string
  permissions :: "permission list"

record user =
  username :: string
  password_hash :: string
  roles :: "role list"

record membership =
  user :: user
  role :: role
  joined_date :: date
  active :: bool

record category =
  cat_id :: int
  category_name :: string
  category_description :: string
  parent :: "ref option"

record product =
  uuid :: string
  product_name :: string
  product_description :: string
  price :: real
  produced_date :: date
  is_new :: bool
  category :: "ref option"
  categories_ids :: "int set"

record inventory =
  inventory_description :: string
  products :: "product list"

record company =
  company_name :: string
  owner :: string
  location :: string
  inventory :: inventory
  employees :: "membership list"

text \<open>
  \<^verbatim>\<open>Category\<close> objects are shared and mutable (\<^verbatim>\<open>parent\<close> is an object reference, and
  a chain of parents may be cyclic), so they live in a store: every reference denotes an
  object, as in Python.
\<close>

type_synonym store = "ref \<Rightarrow> category"

subsection \<open>Users and memberships\<close>

definition User_authenticate :: "user \<Rightarrow> string \<Rightarrow> bool" where
  "User_authenticate self pw = (password_hash self = pw)"

definition User_has_permission :: "user \<Rightarrow> string \<Rightarrow> bool" where
  "User_has_permission self code =
     list_ex (\<lambda>r. list_ex (\<lambda>perm. code = perm_code perm) (permissions r)) (roles self)"

definition Membership_has_permission :: "membership \<Rightarrow> string \<Rightarrow> bool" where
  "Membership_has_permission self code =
     list_ex (\<lambda>perm. code = perm_code perm) (permissions (role self))"

subsection \<open>Companies\<close>

text \<open>
  \<^verbatim>\<open>get_employees(role)\<close>: \<^verbatim>\<open>not role\<close> holds for \<^verbatim>\<open>None\<close> and for the empty list.
\<close>

fun Company_get_employees :: "company \<Rightarrow> string list option \<Rightarrow> user list" where
  "Company_get_employees self None = map user (filter active (employees self))"
| "Company_get_employees self (Some []) = map user (filter active (employees self))"
| "Company_get_employees self (Some names) =
     map user (filter (\<lambda>m. active m \<and> role_name (role m) \<in> set names) (employees self))"

definition Company_add_member :: "company \<Rightarrow> user \<Rightarrow> role \<Rightarrow> date \<Rightarrow> company" where
  "Company_add_member self u r d =
     self\<lparr>employees := employees self @ [\<lparr>user = u, role = r, joined_date = d, active = True\<rparr>]\<rparr>"

text \<open>The \<^verbatim>\<open>for\<close> loop of \<^verbatim>\<open>find_membership\<close>, returning at the first match.\<close>

fun find_membership_loop :: "membership list \<Rightarrow> user \<Rightarrow> membership option" where
  "find_membership_loop [] u = None"
| "find_membership_loop (m # ms) u = (if user m = u then Some m else find_membership_loop ms u)"

definition Company_find_membership :: "company \<Rightarrow> user \<Rightarrow> membership option" where
  "Company_find_membership self u = find_membership_loop (employees self) u"

definition Company_is_member :: "company \<Rightarrow> user \<Rightarrow> bool" where
  "Company_is_member self u = (Company_find_membership self u \<noteq> None)"

definition Company_has_permission :: "company \<Rightarrow> user \<Rightarrow> string \<Rightarrow> bool" where
  "Company_has_permission self u code =
     (case Company_find_membership self u of
        None \<Rightarrow> False
      | Some m \<Rightarrow> Membership_has_permission m code)"

subsection \<open>Categories and products\<close>

text \<open>
  The \<^verbatim>\<open>while\<close> loop of \<^verbatim>\<open>Product.__post_init__\<close>, with the loop variables
  \<^verbatim>\<open>category\<close> and \<^verbatim>\<open>categories\<close> as the arguments \<open>cat\<close> and \<open>cats\<close>. On a
  repeated id the code sets \<^verbatim>\<open>category = None\<close> and continues, so the next test of
  the loop condition ends the loop. Nothing in the text of the loop bounds the number of
  rounds: the result is \<open>None\<close> when the loop does not end, \<open>Some\<close> of the accumulated
  set when it does.
\<close>

partial_function (option) post_init_loop :: "store \<Rightarrow> ref option \<Rightarrow> int set \<Rightarrow> int set option" where
  "post_init_loop h cat cats =
     (case cat of
        None \<Rightarrow> Some cats
      | Some c \<Rightarrow>
          if cat_id (h c) \<in> cats then post_init_loop h None cats
          else post_init_loop h (parent (h c)) (insert (cat_id (h c)) cats))"

definition Product_post_init :: "store \<Rightarrow> product \<Rightarrow> product option" where
  "Product_post_init h self =
     map_option (\<lambda>ids. self\<lparr>categories_ids := ids\<rparr>) (post_init_loop h (category self) {})"

text \<open>
  The generated constructor assigns the fields and calls \<^verbatim>\<open>__post_init__\<close>, which
  creates \<^verbatim>\<open>_categories_ids\<close>.
\<close>

definition Product_new ::
  "store \<Rightarrow> string \<Rightarrow> string \<Rightarrow> string \<Rightarrow> real \<Rightarrow> date \<Rightarrow> bool \<Rightarrow> ref option \<Rightarrow> product option" where
  "Product_new h sku nm descr pr d new cat =
     Product_post_init h
       \<lparr>uuid = sku, product_name = nm, product_description = descr, price = pr,
        produced_date = d, is_new = new, category = cat, categories_ids = {}\<rparr>"

definition Product_has_category :: "store \<Rightarrow> product \<Rightarrow> ref \<Rightarrow> bool" where
  "Product_has_category h self c = (cat_id (h c) \<in> categories_ids self)"

definition Category_get_products :: "store \<Rightarrow> ref \<Rightarrow> product list \<Rightarrow> product list" where
  "Category_get_products h self all_products =
     [p. p \<leftarrow> all_products, Product_has_category h p self]"

definition Inventory_get_products_by_category :: "store \<Rightarrow> inventory \<Rightarrow> ref \<Rightarrow> product list" where
  "Inventory_get_products_by_category h self c = Category_get_products h c (products self)"

fun get_product_loop :: "product list \<Rightarrow> string \<Rightarrow> product option" where
  "get_product_loop [] sku = None"
| "get_product_loop (p # ps) sku = (if uuid p = sku then Some p else get_product_loop ps sku)"

definition Inventory_get_product :: "inventory \<Rightarrow> string \<Rightarrow> product option" where
  "Inventory_get_product self sku = get_product_loop (products self) sku"

text \<open>The assignment \<^verbatim>\<open>c.parent = p\<close> to a category object.\<close>

definition set_parent :: "store \<Rightarrow> ref \<Rightarrow> ref option \<Rightarrow> store" where
  "set_parent h c p = h(c := (h c)\<lparr>parent := p\<rparr>)"

text \<open>A sequence of such assignments, carried out from left to right.\<close>

fun set_parents :: "store \<Rightarrow> (ref \<times> ref option) list \<Rightarrow> store" where
  "set_parents h [] = h"
| "set_parents h ((c, p) # as) = set_parents (set_parent h c p) as"

text \<open>
  \<open>path h c rs e\<close>: starting at \<open>c\<close> and following \<^verbatim>\<open>parent\<close>, one meets the
  objects \<open>rs\<close> in this order and arrives at \<open>e\<close>. A chain
  \<^verbatim>\<open>c0 -> c1 -> ... -> cn -> None\<close> is \<open>path h (Some c0) [c0, ..., cn] None\<close>.
\<close>

fun path :: "store \<Rightarrow> ref option \<Rightarrow> ref list \<Rightarrow> ref option \<Rightarrow> bool" where
  "path h c [] e = (e = c)"
| "path h c (r # rs) e = (c = Some r \<and> path h (parent (h r)) rs e)"

definition ids_of :: "store \<Rightarrow> ref list \<Rightarrow> int list" where
  "ids_of h rs = map (\<lambda>r. cat_id (h r)) rs"

subsection \<open>Attribute update\<close>

text \<open>
  The exceptions that the modelled code can raise.
\<close>

datatype error = TypeError | AttributeError

text \<open>
  \<^verbatim>\<open>Product.update\<close> works on the object through \<^verbatim>\<open>hasattr\<close> and \<^verbatim>\<open>setattr\<close>, by
  attribute name and with values of any type. The values that occur are the field values
  of a product and what \<^verbatim>\<open>json.loads\<close> produces for the \<^verbatim>\<open>inventory update\<close>
  command; a JSON object is the list of its pairs, with pairwise distinct keys.
\<close>

datatype pyval =
    PyNone
  | PyBool bool
  | PyInt int
  | PyFloat real
  | PyStr string
  | PyDate date
  | PyRef ref
  | PyIntSet "int set"
  | PyList "pyval list"
  | PyDict "(string \<times> pyval) list"

text \<open>
  At this level an object is its instance dictionary, a map from attribute names to
  values; \<open>cls\<close> is the set of the names that resolve through the class (methods, class
  attributes, what \<^verbatim>\<open>object\<close> provides). \<^verbatim>\<open>hasattr\<close> looks in both. Three names are
  bound by \<^verbatim>\<open>object\<close> and by every class with an instance dictionary to data
  descriptors, so they always resolve, and assigning to them does not write an entry of
  the instance dictionary:
  \<^item> \<^verbatim>\<open>__class__\<close> accepts a class only, and no value here is one: \<^verbatim>\<open>TypeError\<close>;
  \<^item> \<^verbatim>\<open>__dict__\<close> accepts a dictionary, which then \<^emph>\<open>is\<close> the instance dictionary, and
    raises \<^verbatim>\<open>TypeError\<close> for any other value;
  \<^item> \<^verbatim>\<open>__weakref__\<close> is not writable: \<^verbatim>\<open>AttributeError\<close>.

  For every other name \<^verbatim>\<open>setattr\<close> writes the instance dictionary.
\<close>

type_synonym attrs = "string \<rightharpoonup> pyval"

definition descriptor_names :: "string set" where
  "descriptor_names = {''__class__'', ''__dict__'', ''__weakref__''}"

definition hasattr :: "string set \<Rightarrow> attrs \<Rightarrow> string \<Rightarrow> bool" where
  "hasattr cls self k = (k \<in> descriptor_names \<or> k \<in> cls \<or> self k \<noteq> None)"

definition setattr :: "attrs \<Rightarrow> string \<Rightarrow> pyval \<Rightarrow> error + attrs" where
  "setattr self k v =
     (if k = ''__class__'' then Inl TypeError
      else if k = ''__dict__'' then
        (case v of PyDict kvs \<Rightarrow> Inr (map_of kvs) | _ \<Rightarrow> Inl TypeError)
      else if k = ''__weakref__'' then Inl AttributeError
      else Inr (self(k \<mapsto> v)))"

text \<open>
  The \<^verbatim>\<open>for\<close> loop of \<^verbatim>\<open>update\<close> over \<^verbatim>\<open>kwargs.items()\<close>, the list of the pairs in
  insertion order. The result is the object as the call leaves it and the exception that
  ended the call, if any: an exception in one round keeps what the rounds before it
  wrote.
\<close>

fun update_loop :: "string set \<Rightarrow> attrs \<Rightarrow> (string \<times> pyval) list \<Rightarrow> attrs \<times> error option" where
  "update_loop cls self [] = (self, None)"
| "update_loop cls self ((k, v) # kwargs) =
     (if hasattr cls self k then
        (case setattr self k v of
           Inl e \<Rightarrow> (self, Some e)
         | Inr self' \<Rightarrow> update_loop cls self' kwargs)
      else update_loop cls self kwargs)"

text \<open>
  The call \<^verbatim>\<open>prod.update(**product_dict)\<close> of the \<^verbatim>\<open>inventory update\<close> command. The
  method is declared \<^verbatim>\<open>update(self, **kwargs)\<close>: a dictionary with the key \<^verbatim>\<open>self\<close>
  gives the parameter \<^verbatim>\<open>self\<close> a second value, and binding the arguments raises
  \<^verbatim>\<open>TypeError\<close> before the body runs.
\<close>

definition Product_update :: "string set \<Rightarrow> attrs \<Rightarrow> (string \<times> pyval) list \<Rightarrow> attrs \<times> error option" where
  "Product_update cls self kwargs =
     (if ''self'' \<in> fst ` set kwargs then (self, Some TypeError)
      else update_loop cls self kwargs)"

text \<open>The instance dictionary of a product.\<close>

definition Product_dict :: "product \<Rightarrow> attrs" where
  "Product_dict p =
     [''uuid'' \<mapsto> PyStr (uuid p),
      ''name'' \<mapsto> PyStr (product_name p),
      ''description'' \<mapsto> PyStr (product_description p),
      ''price'' \<mapsto> PyFloat (price p),
      ''produced_date'' \<mapsto> PyDate (produced_date p),
      ''is_new'' \<mapsto> PyBool (is_new p),
      ''category'' \<mapsto> (case category p of None \<Rightarrow> PyNone | Some c \<Rightarrow> PyRef c),
      ''_categories_ids'' \<mapsto> PyIntSet (categories_ids p)]"

section \<open>Session and permission gate (company/utils.py)\<close>

text \<open>
  The code reads the wall clock with \<^verbatim>\<open>dt.datetime.now()\<close>. The clock is a
  parameter \<open>clk\<close>: \<open>clk n\<close> is what the \<open>n\<close>-th reading of the run returns, and the
  number of readings made so far is threaded through next to the context. The default of
  \<^verbatim>\<open>Session.last_visited_date\<close> is evaluated once, when the class is defined; it is the
  parameter \<open>t0\<close>.
\<close>

type_synonym clock = "nat \<Rightarrow> time"

definition timedelta_minutes :: "int \<Rightarrow> int" where
  "timedelta_minutes m = m * 60000000"

record session =
  raw_current_user :: "user option"
  company :: "company option"
  last_visited_date :: time

record app_data =
  users :: "user list"
  companies :: "company list"
  categories :: "ref list"
  app_roles :: "role list"

record "context" =
  data :: app_data
  session :: session

definition Session_init :: "time \<Rightarrow> session" where
  "Session_init t0 = \<lparr>raw_current_user = None, company = None, last_visited_date = t0\<rparr>"

text \<open>The property \<^verbatim>\<open>Session.current_user\<close>: a successful read renews the timestamp.\<close>

definition Session_current_user :: "clock \<Rightarrow> session \<Rightarrow> nat \<Rightarrow> user option \<times> session \<times> nat" where
  "Session_current_user clk self n =
     (case raw_current_user self of
        None \<Rightarrow> (None, self, n)
      | Some u \<Rightarrow> (Some u, self\<lparr>last_visited_date := clk n\<rparr>, Suc n))"

definition Session_set_current_user :: "clock \<Rightarrow> session \<Rightarrow> user \<Rightarrow> nat \<Rightarrow> session \<times> nat" where
  "Session_set_current_user clk self u n =
     (self\<lparr>raw_current_user := Some u, last_visited_date := clk n\<rparr>, Suc n)"

definition Context_current_user :: "clock \<Rightarrow> context \<Rightarrow> nat \<Rightarrow> user option \<times> context \<times> nat" where
  "Context_current_user clk self n =
     (case Session_current_user clk (session self) n of
        (u, s, n') \<Rightarrow> (u, self\<lparr>session := s\<rparr>, n'))"

definition Context_current_company :: "context \<Rightarrow> company option" where
  "Context_current_company self = company (session self)"

definition Context_set_user :: "clock \<Rightarrow> context \<Rightarrow> user \<Rightarrow> nat \<Rightarrow> context \<times> nat" where
  "Context_set_user clk self u n =
     (case Session_set_current_user clk (session self) u n of
        (s, n') \<Rightarrow> (self\<lparr>session := s\<rparr>, n'))"

definition Context_set_company :: "context \<Rightarrow> company \<Rightarrow> context" where
  "Context_set_company self c = self\<lparr>session := (session self)\<lparr>company := Some c\<rparr>\<rparr>"

definition Context_reset_session :: "time \<Rightarrow> context \<Rightarrow> context" where
  "Context_reset_session t0 self = self\<lparr>session := Session_init t0\<rparr>"

text \<open>
  \<^verbatim>\<open>user_logged_in\<close>: one clock reading for the comparison, then the read of
  \<^verbatim>\<open>current_user\<close> (a second reading when a user is present).
\<close>

definition Context_user_logged_in :: "clock \<Rightarrow> time \<Rightarrow> context \<Rightarrow> nat \<Rightarrow> bool \<times> context \<times> nat" where
  "Context_user_logged_in clk t0 self n =
     (let self1 = (if last_visited_date (session self) < clk n - timedelta_minutes 10
                   then Context_reset_session t0 self else self)
      in case Context_current_user clk self1 (Suc n) of
           (u, self2, n2) \<Rightarrow> (u \<noteq> None, self2, n2))"

text \<open>
  The decorators \<^verbatim>\<open>require_login\<close> and \<^verbatim>\<open>require_permissions\<close>. The result says
  what the wrapper does: print "Login required", print "Not Authorized to perform this
  action.", call the command, or raise. \<^verbatim>\<open>permissions\<close> defaults to \<^verbatim>\<open>None\<close>, over
  which the \<^verbatim>\<open>for\<close> loop raises \<^verbatim>\<open>TypeError\<close>; \<^verbatim>\<open>None.has_permission\<close> raises
  \<^verbatim>\<open>AttributeError\<close>. Saving the context afterwards (\<^verbatim>\<open>with_app_context\<close>) is
  persistence and is not modelled.
\<close>

datatype outcome = LoginRequired | NotAuthorized | Proceeds | Raises error

fun check_global :: "clock \<Rightarrow> string list \<Rightarrow> context \<Rightarrow> nat \<Rightarrow> outcome \<times> context \<times> nat" where
  "check_global clk [] ctx n = (Proceeds, ctx, n)"
| "check_global clk (p # ps) ctx n =
     (case Context_current_user clk ctx n of
        (None, ctx', n') \<Rightarrow> (Raises AttributeError, ctx', n')
      | (Some u, ctx', n') \<Rightarrow>
          if \<not> User_has_permission u p then (NotAuthorized, ctx', n')
          else check_global clk ps ctx' n')"

text \<open>
  In the company branch the user is passed on as it is read; for \<^verbatim>\<open>None\<close> no
  membership compares equal to it, so \<^verbatim>\<open>Company.has_permission\<close> returns \<^verbatim>\<open>False\<close>.
\<close>

fun check_company :: "clock \<Rightarrow> string list \<Rightarrow> context \<Rightarrow> nat \<Rightarrow> outcome \<times> context \<times> nat" where
  "check_company clk [] ctx n = (Proceeds, ctx, n)"
| "check_company clk (p # ps) ctx n =
     (case Context_current_company ctx of
        None \<Rightarrow> (Raises AttributeError, ctx, n)
      | Some c \<Rightarrow>
         (case Context_current_user clk ctx n of
            (None, ctx', n') \<Rightarrow> (NotAuthorized, ctx', n')
          | (Some u, ctx', n') \<Rightarrow>
              if \<not> Company_has_permission c u p then (NotAuthorized, ctx', n')
              else check_company clk ps ctx' n'))"

definition require_permissions ::
  "clock \<Rightarrow> time \<Rightarrow> string list option \<Rightarrow> context \<Rightarrow> nat \<Rightarrow> outcome \<times> context \<times> nat" where
  "require_permissions clk t0 perms ctx n =
     (case Context_user_logged_in clk t0 ctx n of
        (False, ctx1, n1) \<Rightarrow> (LoginRequired, ctx1, n1)
      | (True, ctx1, n1) \<Rightarrow>
          (case Context_current_company ctx1 of
             None \<Rightarrow>
               (case perms of
                  None \<Rightarrow> (Raises TypeError, ctx1, n1)
                | Some ps \<Rightarrow> check_global clk ps ctx1 n1)
           | Some c \<Rightarrow>
               (case perms of
                  None \<Rightarrow> (Raises TypeError, ctx1, n1)
                | Some ps \<Rightarrow> check_company clk ps ctx1 n1)))"

section \<open>Data store and login (company/data.py, company/cli.py)\<close>

fun find_category_loop :: "store \<Rightarrow> ref list \<Rightarrow> int \<Rightarrow> ref option" where
  "find_category_loop h [] category_id = None"
| "find_category_loop h (c # cs) category_id =
     (if cat_id (h c) = category_id then Some c else find_category_loop h cs category_id)"

definition AppData_find_category :: "store \<Rightarrow> app_data \<Rightarrow> int \<Rightarrow> ref option" where
  "AppData_find_category h self category_id = find_category_loop h (categories self) category_id"

text \<open>
  The command \<^verbatim>\<open>auth login\<close>. \<^verbatim>\<open>str.lower\<close> is the parameter \<open>lower\<close>. The two
  generators with \<^verbatim>\<open>next(..., None)\<close> are first-match searches; \<^verbatim>\<open>if company_name\<close>
  fails for \<^verbatim>\<open>None\<close> and for the empty string.
\<close>

datatype login_outcome =
  InvalidCredentials | LoggedIn | CompanyNotFound | NotMember | LoggedInCompany

fun next_user :: "(string \<Rightarrow> string) \<Rightarrow> user list \<Rightarrow> string \<Rightarrow> user option" where
  "next_user lower [] nm = None"
| "next_user lower (u # us) nm =
     (if lower (username u) = lower nm then Some u else next_user lower us nm)"

fun next_company :: "company list \<Rightarrow> string \<Rightarrow> company option" where
  "next_company [] nm = None"
| "next_company (c # cs) nm = (if company_name c = nm then Some c else next_company cs nm)"

definition login ::
  "(string \<Rightarrow> string) \<Rightarrow> clock \<Rightarrow> time \<Rightarrow> context \<Rightarrow> string \<Rightarrow> string \<Rightarrow> string option \<Rightarrow> nat
     \<Rightarrow> login_outcome \<times> context \<times> nat" where
  "login lower clk t0 ctx nm password cname n =
     (let ctx1 = Context_reset_session t0 ctx in
      case next_user lower (users (data ctx1)) nm of
        None \<Rightarrow> (InvalidCredentials, ctx1, n)
      | Some u \<Rightarrow>
          if \<not> User_authenticate u password then (InvalidCredentials, ctx1, n)
          else
            (case Context_set_user clk ctx1 u n of
               (ctx2, n2) \<Rightarrow>
                 if cname = None \<or> cname = Some [] then (LoggedIn, ctx2, n2)
                 else
                   (case next_company (companies (data ctx2)) (the cname) of
                      None \<Rightarrow> (CompanyNotFound, ctx2, n2)
                    | Some c \<Rightarrow>
                        if \<not> Company_is_member c u then (NotMember, ctx2, n2)
                        else (LoggedInCompany, Context_set_company ctx2 c, n2))))"

section \<open>Sample data (AppData.init\_default and variations)\<close>

definition PermissionCode :: "string list" where
  "PermissionCode =
     [''view'', ''edit'', ''delete'', ''create'', ''manage'', ''admin'',
      ''company_view'', ''company_edit'', ''company_delete'', ''company_create'',
      ''company_manage'', ''company_admin'',
      ''view_list_permissions'', ''view_list_users'', ''create_user'']"

definition Permission :: "string \<Rightarrow> permission" where
  "Permission code = \<lparr>perm_code = code, perm_description = Some []\<rparr>"

definition user_role :: role where
  "user_role = \<lparr>role_name = ''user'', permissions = [Permission ''view'']\<rparr>"

definition manager_role :: role where
  "manager_role =
     \<lparr>role_name = ''company_manager'',
      permissions = [Permission ''view'', Permission ''company_view'', Permission ''company_edit'']\<rparr>"

definition superuser_role :: role where
  "superuser_role = \<lparr>role_name = ''superuser'', permissions = map Permission PermissionCode\<rparr>"

definition superuser :: user where
  "superuser = \<lparr>username = ''superuser'', password_hash = ''superuser'', roles = [superuser_role]\<rparr>"

definition alice :: user where
  "alice = \<lparr>username = ''Alice'', password_hash = ''alice'', roles = [user_role]\<rparr>"

definition bob :: user where
  "bob = \<lparr>username = ''Bob'', password_hash = ''bob'', roles = [user_role]\<rparr>"

definition c1_manager :: membership where
  "c1_manager = \<lparr>user = alice, role = manager_role, joined_date = 737425, active = True\<rparr>"

definition company_1 :: company where
  "company_1 =
     \<lparr>company_name = ''Boat Store'', owner = ''Trump'', location = ''Sydney'',
      inventory = \<lparr>inventory_description = ''Boat Store Main Warehouse'', products = []\<rparr>,
      employees = [c1_manager]\<rparr>"

text \<open>A company in which Bob is an active worker and Alice a manager who was deactivated.\<close>

definition company_3 :: company where
  "company_3 =
     \<lparr>company_name = ''Marina'', owner = ''Carol'', location = ''Perth'',
      inventory = \<lparr>inventory_description = ''Marina Shed'', products = []\<rparr>,
      employees =
        [\<lparr>user = bob, role = user_role, joined_date = 737922, active = True\<rparr>,
         \<lparr>user = alice, role = manager_role, joined_date = 737425, active = False\<rparr>]\<rparr>"

definition sample_data :: app_data where
  "sample_data =
     \<lparr>users = [alice, bob, superuser], companies = [company_1, company_3],
      categories = [3, 4, 5, 0, 1, 2], app_roles = [user_role, manager_role]\<rparr>"

text \<open>A session of the superuser in company 1, last visited at time 0.\<close>

definition superuser_ctx :: "context" where
  "superuser_ctx =
     \<lparr>data = sample_data,
      session = \<lparr>raw_current_user = Some superuser, company = Some company_1,
                 last_visited_date = 0\<rparr>\<rparr>"

text \<open>A clock that advances by one second per reading, starting at \<open>s\<close> microseconds.\<close>

definition clock_from :: "time \<Rightarrow> clock" where
  "clock_from s n = s + 1000000 * int n"

text \<open>
  The category objects of the sample data, at the references 0 to 5. Every other
  reference holds a further object equal to \<open>vehicle\<close>, such as a copy of it that was
  loaded on its own.
\<close>

definition vehicle :: category where
  "vehicle = \<lparr>cat_id = 1, category_name = ''Vehicle'',
     category_description = ''All kind of vehicles'', parent = None\<rparr>"

definition water_vehicle :: category where
  "water_vehicle = \<lparr>cat_id = 100, category_name = ''Water Vehicle'',
     category_description = ''Boats, yachts, etc'', parent = Some 0\<rparr>"

definition parts :: category where
  "parts = \<lparr>cat_id = 2, category_name = ''Parts'',
     category_description = ''Parts for vehicles'', parent = None\<rparr>"

definition yacht_cat :: category where
  "yacht_cat = \<lparr>cat_id = 1000, category_name = ''Yacht'',
     category_description = ''Luxury yachts'', parent = Some 1\<rparr>"

definition boat_cat :: category where
  "boat_cat = \<lparr>cat_id = 1001, category_name = ''Boat'',
     category_description = ''Boats for all purposes'', parent = Some 1\<rparr>"

definition motor_cat :: category where
  "motor_cat = \<lparr>cat_id = 10000, category_name = ''Motors'',
     category_description = ''Motors'', parent = Some 2\<rparr>"

definition sample_store :: store where
  "sample_store =
     (\<lambda>r. vehicle)(1 := water_vehicle, 2 := parts, 3 := yacht_cat, 4 := boat_cat, 5 := motor_cat)"

definition closure_product :: "string \<Rightarrow> string \<Rightarrow> ref option \<Rightarrow> int set \<Rightarrow> product" where
  "closure_product sku nm cat ids =
     \<lparr>uuid = sku, product_name = nm, product_description = [], price = 1,
      produced_date = 738307, is_new = True, category = cat, categories_ids = ids\<rparr>"

definition yacht1 :: product where
  "yacht1 = closure_product ''SKU001'' ''Yacht X'' (Some 3) {1, 100, 1000}"

definition boat1 :: product where
  "boat1 = closure_product ''SKU002'' ''Boat A'' (Some 4) {1, 100, 1001}"

definition motor1 :: product where
  "motor1 = closure_product ''SKU003'' ''Motor B'' (Some 5) {2, 10000}"

text \<open>Two objects that are each other's parent.\<close>

definition cyclic_store :: store where
  "cyclic_store =
     (\<lambda>r. vehicle)
       (0 := \<lparr>cat_id = 7, category_name = ''A'', category_description = [], parent = Some 1\<rparr>,
        1 := \<lparr>cat_id = 8, category_name = ''B'', category_description = [], parent = Some 0\<rparr>)"

text \<open>
  A chain \<open>0 \<rightarrow> 1 \<rightarrow> 2 \<rightarrow> None\<close> of three objects, the first two of which carry the same
  id.
\<close>

definition dup_store :: store where
  "dup_store =
     (\<lambda>r. vehicle)
       (0 := \<lparr>cat_id = 1, category_name = ''A'', category_description = [], parent = Some 1\<rparr>,
        1 := \<lparr>cat_id = 1, category_name = ''B'', category_description = [], parent = Some 2\<rparr>,
        2 := \<lparr>cat_id = 2, category_name = ''C'', category_description = [], parent = None\<rparr>)"

section \<open>Properties of the authorization model\<close>

subsection \<open>Membership lookup\<close>

lemma find_membership_loop_find:
  "find_membership_loop ms u = List.find (\<lambda>m. user m = u) ms"
  by (induction ms) auto

lemma find_membership_loop_first:
  "\<forall>x\<in>set pre. user x \<noteq> u \<Longrightarrow> user m = u \<Longrightarrow>
   find_membership_loop (pre @ m # post) u = Some m"
  by (induction pre) auto

lemma find_membership_loop_None:
  "(find_membership_loop ms u = None) = (\<forall>m\<in>set ms. user m \<noteq> u)"
  by (induction ms) auto

lemma Membership_has_permission_iff:
  "Membership_has_permission m code \<longleftrightarrow> code \<in> perm_code ` set (permissions (role m))"
  by (auto simp: Membership_has_permission_def list_ex_iff)

lemma User_has_permission_iff:
  "User_has_permission u code \<longleftrightarrow>
     (\<exists>r\<in>set (roles u). code \<in> perm_code ` set (permissions r))"
  by (auto simp: User_has_permission_def list_ex_iff)

lemma get_employees_active:
  "set (Company_get_employees c f) \<subseteq> user ` {m \<in> set (employees c). active m}"
  by (cases "(c, f)" rule: Company_get_employees.cases) auto

subsection \<open>The permission loops\<close>

text \<open>
  With a user and a company in the session, the loop of the company branch answers by
  \<^verbatim>\<open>Company.has_permission\<close> alone; reading the user only renews the timestamp.
\<close>

lemma check_company_decides:
  "company (session ctx) = Some c \<Longrightarrow> raw_current_user (session ctx) = Some u \<Longrightarrow>
   fst (check_company clk ps ctx n) =
     (if list_all (Company_has_permission c u) ps then Proceeds else NotAuthorized)"
proof (induction ps arbitrary: ctx n)
  case Nil
  then show ?case by simp
next
  case (Cons p ps)
  then show ?case
    by (simp add: Context_current_company_def Context_current_user_def Session_current_user_def)
qed

lemma check_global_decides:
  "raw_current_user (session ctx) = Some u \<Longrightarrow>
   fst (check_global clk ps ctx n) =
     (if list_all (User_has_permission u) ps then Proceeds else NotAuthorized)"
proof (induction ps arbitrary: ctx n)
  case Nil
  then show ?case by simp
next
  case (Cons p ps)
  then show ?case
    by (simp add: Context_current_user_def Session_current_user_def)
qed

lemma user_logged_in_fresh:
  "\<not> last_visited_date (session ctx) < clk n - timedelta_minutes 10 \<Longrightarrow>
   raw_current_user (session ctx) = Some u \<Longrightarrow>
   Context_user_logged_in clk t0 ctx n =
     (True, ctx\<lparr>session := (session ctx)\<lparr>last_visited_date := clk (Suc n)\<rparr>\<rparr>, Suc (Suc n))"
  by (simp add: Context_user_logged_in_def Context_current_user_def Session_current_user_def)

lemma user_logged_in_stale:
  "last_visited_date (session ctx) < clk n - timedelta_minutes 10 \<Longrightarrow>
   Context_user_logged_in clk t0 ctx n = (False, Context_reset_session t0 ctx, Suc n)"
  by (simp add: Context_user_logged_in_def Context_current_user_def Session_current_user_def
      Context_reset_session_def Session_init_def)

lemma user_logged_in_logged_out:
  "raw_current_user (session ctx) = None \<Longrightarrow> company (session ctx) = None \<Longrightarrow>
   fst (Context_user_logged_in clk t0 ctx n) = False"
  by (simp add: Context_user_logged_in_def Context_current_user_def Session_current_user_def
      Context_reset_session_def Session_init_def)

text \<open>
  C1. \<^verbatim>\<open>Company.has_permission(user, code)\<close> is false whenever no membership of the
  company is for the user; nothing is assumed about the user's own roles, so this holds
  also when they grant the code. With a user logged in (session not older than ten
  minutes) and a current company set, the gate of \<^verbatim>\<open>require_permissions\<close> lets the
  command run exactly when \<^verbatim>\<open>Company.has_permission\<close> holds for every required code, and
  answers "Not Authorized" otherwise: \<^verbatim>\<open>User.has_permission\<close> takes no part in it.
\<close>

theorem company_scope_decided_by_membership:
  "((\<forall>m\<in>set (employees c). user m \<noteq> u) \<longrightarrow> \<not> Company_has_permission c u code) \<and>
   (\<not> last_visited_date (session ctx) < clk n - timedelta_minutes 10 \<and>
    raw_current_user (session ctx) = Some u \<and> company (session ctx) = Some c \<longrightarrow>
      fst (require_permissions clk t0 (Some ps) ctx n) =
        (if list_all (Company_has_permission c u) ps then Proceeds else NotAuthorized))"
proof (intro conjI impI)
  assume "\<forall>m\<in>set (employees c). user m \<noteq> u"
  then have "find_membership_loop (employees c) u = None"
    by (simp add: find_membership_loop_None)
  then show "\<not> Company_has_permission c u code"
    by (simp add: Company_has_permission_def Company_find_membership_def)
next
  assume a: "\<not> last_visited_date (session ctx) < clk n - timedelta_minutes 10 \<and>
    raw_current_user (session ctx) = Some u \<and> company (session ctx) = Some c"
  let ?ctx1 = "ctx\<lparr>session := (session ctx)\<lparr>last_visited_date := clk (Suc n)\<rparr>\<rparr>"
  have li: "Context_user_logged_in clk t0 ctx n = (True, ?ctx1, Suc (Suc n))"
    using a by (simp add: user_logged_in_fresh)
  have "fst (check_company clk ps ?ctx1 (Suc (Suc n))) =
        (if list_all (Company_has_permission c u) ps then Proceeds else NotAuthorized)"
    using a by (intro check_company_decides) simp_all
  then show "fst (require_permissions clk t0 (Some ps) ctx n) =
        (if list_all (Company_has_permission c u) ps then Proceeds else NotAuthorized)"
    using a by (simp add: require_permissions_def li Context_current_company_def)
qed

text \<open>
  The superuser holds every permission through a global role and is no member of company
  1: in a session with that company, every check for \<^verbatim>\<open>admin\<close> is refused.
\<close>

theorem company_scope_decided_by_membership_witness:
  "superuser \<notin> user ` set (employees company_1) \<and>
   User_has_permission superuser ''admin'' \<and>
   \<not> Company_has_permission company_1 superuser ''admin'' \<and>
   \<not> last_visited_date (session superuser_ctx) < clock_from 0 0 - timedelta_minutes 10 \<and>
   fst (require_permissions (clock_from 0) 0 (Some [''admin'']) superuser_ctx 0) = NotAuthorized"
proof -
  have h1: "\<forall>m\<in>set (employees company_1). user m \<noteq> superuser"
    by (simp add: company_1_def c1_manager_def alice_def superuser_def)
  have h2: "\<not> last_visited_date (session superuser_ctx) < clock_from 0 0 - timedelta_minutes 10"
    by (simp add: superuser_ctx_def clock_from_def timedelta_minutes_def)
  have h3: "raw_current_user (session superuser_ctx) = Some superuser"
    "company (session superuser_ctx) = Some company_1"
    by (simp_all add: superuser_ctx_def)
  have g: "User_has_permission superuser ''admin''"
    by (simp add: User_has_permission_def superuser_def superuser_role_def PermissionCode_def
        Permission_def)
  from company_scope_decided_by_membership
         [of company_1 superuser "''admin''" superuser_ctx "clock_from 0" 0 0 "[''admin'']"]
  show ?thesis using h1 h2 h3 g by auto
qed

text \<open>
  C5. When the session's last access lies more than ten minutes before the clock reading,
  \<^verbatim>\<open>user_logged_in\<close> replaces the session by a new one (no user, no company) and
  returns \<^verbatim>\<open>False\<close>, whatever user and company the session held. The answer and the
  resulting context are those that the check gives on the context that was logged out
  beforehand, and the gates built on it answer "Login required".
\<close>

theorem stale_session_is_logged_out:
  assumes "last_visited_date (session ctx) < clk n - timedelta_minutes 10"
  shows "Context_user_logged_in clk t0 ctx n = (False, Context_reset_session t0 ctx, Suc n) \<and>
         raw_current_user (session (Context_reset_session t0 ctx)) = None \<and>
         company (session (Context_reset_session t0 ctx)) = None \<and>
         Context_user_logged_in clk t0 ctx n =
           Context_user_logged_in clk t0 (Context_reset_session t0 ctx) n \<and>
         fst (require_permissions clk t0 perms ctx n) = LoginRequired"
proof -
  have a: "Context_user_logged_in clk t0 ctx n = (False, Context_reset_session t0 ctx, Suc n)"
    using assms by (rule user_logged_in_stale)
  have b: "Context_user_logged_in clk t0 (Context_reset_session t0 ctx) n =
           (False, Context_reset_session t0 ctx, Suc n)"
    by (simp add: Context_user_logged_in_def Context_current_user_def Session_current_user_def
        Context_reset_session_def Session_init_def)
  have c: "fst (require_permissions clk t0 perms ctx n) = LoginRequired"
    by (simp add: require_permissions_def a)
  show ?thesis
    using a b c by (simp add: Context_reset_session_def Session_init_def)
qed

text \<open>
  The superuser's session was last visited at time 0; eleven minutes later the check
  finds it stale although a user and a company are present.
\<close>

theorem stale_session_is_logged_out_witness:
  "raw_current_user (session superuser_ctx) = Some superuser \<and>
   last_visited_date (session superuser_ctx) < clock_from (timedelta_minutes 11) 0 - timedelta_minutes 10 \<and>
   Context_user_logged_in (clock_from (timedelta_minutes 11)) 5 superuser_ctx 0 =
     (False, \<lparr>data = sample_data, session = Session_init 5\<rparr>, 1) \<and>
   fst (require_permissions (clock_from (timedelta_minutes 11)) 5 (Some [''view'']) superuser_ctx 0)
     = LoginRequired"
proof -
  have h: "last_visited_date (session superuser_ctx)
             < clock_from (timedelta_minutes 11) 0 - timedelta_minutes 10"
    by (simp add: superuser_ctx_def clock_from_def timedelta_minutes_def)
  from stale_session_is_logged_out
         [of superuser_ctx "clock_from (timedelta_minutes 11)" 0 5 "Some [''view'']", OF h]
  show ?thesis using h by (simp add: superuser_ctx_def Context_reset_session_def)
qed

lemma get_employees_filter:
  "Company_get_employees c f =
     map user (filter (\<lambda>x. active x \<and>
        (case f of None \<Rightarrow> True | Some ns \<Rightarrow> ns = [] \<or> role_name (role x) \<in> set ns))
        (employees c))"
  by (cases "(c, f)" rule: Company_get_employees.cases) simp_all

text \<open>
  C6. \<^verbatim>\<open>find_membership\<close> returns the first membership of the list whose user equals the
  given one, whether it is active or not. \<^verbatim>\<open>is_member\<close> is true exactly when it finds
  one, that is, when some membership of the list is for the user; \<^verbatim>\<open>has_permission\<close>
  is true exactly when it finds one whose role has the code. So an inactive membership
  that is the first for its user makes the user a member and grants its role's
  permissions. \<^verbatim>\<open>get_employees\<close> returns the users of the active memberships (of
  those with one of the given role names, when names are given), in the order of the
  list.
\<close>

theorem membership_lookup_ignores_active:
  "Company_find_membership c u = List.find (\<lambda>x. user x = u) (employees c) \<and>
   (Company_is_member c u \<longleftrightarrow> (\<exists>x. Company_find_membership c u = Some x)) \<and>
   (Company_is_member c u \<longleftrightarrow> (\<exists>x\<in>set (employees c). user x = u)) \<and>
   (Company_has_permission c u code \<longleftrightarrow>
      (\<exists>x. Company_find_membership c u = Some x \<and>
           code \<in> perm_code ` set (permissions (role x)))) \<and>
   (employees c = pre @ m # post \<and> (\<forall>x\<in>set pre. user x \<noteq> u) \<and> user m = u \<longrightarrow>
      Company_find_membership c u = Some m \<and>
      Company_is_member c u \<and>
      (Company_has_permission c u code \<longleftrightarrow> code \<in> perm_code ` set (permissions (role m)))) \<and>
   Company_get_employees c None = map user (filter active (employees c)) \<and>
   Company_get_employees c f =
     map user (filter (\<lambda>x. active x \<and>
        (case f of None \<Rightarrow> True | Some ns \<Rightarrow> ns = [] \<or> role_name (role x) \<in> set ns))
        (employees c)) \<and>
   set (Company_get_employees c f) \<subseteq> user ` {x \<in> set (employees c). active x}"
proof -
  have a: "Company_find_membership c u = List.find (\<lambda>x. user x = u) (employees c)"
    by (simp add: Company_find_membership_def find_membership_loop_find)
  have b: "Company_is_member c u \<longleftrightarrow> (\<exists>x. Company_find_membership c u = Some x)"
    by (simp add: Company_is_member_def)
  have c: "Company_is_member c u \<longleftrightarrow> (\<exists>x\<in>set (employees c). user x = u)"
    by (simp add: Company_is_member_def Company_find_membership_def find_membership_loop_None)
  have d: "Company_has_permission c u code \<longleftrightarrow>
      (\<exists>x. Company_find_membership c u = Some x \<and>
           code \<in> perm_code ` set (permissions (role x)))"
    by (simp add: Company_has_permission_def Membership_has_permission_iff split: option.splits)
  have e: "Company_find_membership c u = Some m"
    if "employees c = pre @ m # post \<and> (\<forall>x\<in>set pre. user x \<noteq> u) \<and> user m = u"
    using that by (simp add: Company_find_membership_def find_membership_loop_first)
  have f: "Company_get_employees c None = map user (filter active (employees c))"
    by simp
  show ?thesis
    using a b c d e f get_employees_filter [of c f] get_employees_active [of c f]
    by (auto simp del: Company_get_employees.simps)
qed

text \<open>
  In company 3 the only membership of Alice is inactive and comes after Bob's: she is a
  member and holds \<^verbatim>\<open>company_edit\<close> there, and the list of employees is Bob alone. The
  superuser has no membership there: no member and no permission.
\<close>

theorem membership_lookup_ignores_active_witness:
  "\<not> active \<lparr>user = alice, role = manager_role, joined_date = 737425, active = False\<rparr> \<and>
   Company_find_membership company_3 alice
     = Some \<lparr>user = alice, role = manager_role, joined_date = 737425, active = False\<rparr> \<and>
   Company_is_member company_3 alice \<and>
   Company_has_permission company_3 alice ''company_edit'' \<and>
   \<not> Company_has_permission company_3 alice ''admin'' \<and>
   \<not> Company_is_member company_3 superuser \<and>
   \<not> Company_has_permission company_3 superuser ''view'' \<and>
   Company_get_employees company_3 None = [bob] \<and>
   Company_get_employees company_3 (Some [''company_manager'']) = []"
proof -
  let ?b = "\<lparr>user = bob, role = user_role, joined_date = 737922, active = True\<rparr>"
  let ?a = "\<lparr>user = alice, role = manager_role, joined_date = 737425, active = False\<rparr>"
  have h: "employees company_3 = [?b] @ ?a # [] \<and> (\<forall>x\<in>set [?b]. user x \<noteq> alice) \<and>
           user ?a = alice"
    by (simp add: company_3_def alice_def bob_def)
  have n: "\<not> (\<exists>x\<in>set (employees company_3). user x = superuser)"
    by (simp add: company_3_def alice_def bob_def superuser_def)
  have p: "''admin'' \<notin> perm_code ` set (permissions (role ?a))"
    by (simp add: manager_role_def Permission_def)
  from membership_lookup_ignores_active
         [of company_3 alice "''company_edit''" "[?b]" ?a "[]" None]
       membership_lookup_ignores_active
         [of company_3 alice "''admin''" "[?b]" ?a "[]" "Some [''company_manager'']"]
       membership_lookup_ignores_active
         [of company_3 superuser "''view''" "[]" ?a "[]" None]
  show ?thesis
    using h n p
    by (simp add: manager_role_def user_role_def Permission_def company_3_def)
qed

section \<open>Properties of the category closure\<close>

subsection \<open>The loop of \<^verbatim>\<open>__post_init__\<close>\<close>

lemma post_init_loop_None: "post_init_loop h None acc = Some acc"
  by (subst post_init_loop.simps) simp

lemma post_init_loop_seen:
  "cat_id (h c) \<in> acc \<Longrightarrow> post_init_loop h (Some c) acc = Some acc"
  by (subst post_init_loop.simps) (simp add: post_init_loop_None)

lemma post_init_loop_step:
  "cat_id (h c) \<notin> acc \<Longrightarrow>
   post_init_loop h (Some c) acc = post_init_loop h (parent (h c)) (insert (cat_id (h c)) acc)"
  by (subst post_init_loop.simps) simp

text \<open>
  Along a path whose ids are new and pairwise distinct the loop collects every id; it
  ends where the path ends, if that is \<^verbatim>\<open>None\<close> or an object whose id was collected.
\<close>

lemma post_init_loop_path:
  "path h c rs e \<Longrightarrow> distinct (ids_of h rs) \<Longrightarrow> set (ids_of h rs) \<inter> acc = {} \<Longrightarrow>
   e = None \<or> (\<exists>r. e = Some r \<and> cat_id (h r) \<in> acc \<union> set (ids_of h rs)) \<Longrightarrow>
   post_init_loop h c acc = Some (acc \<union> set (ids_of h rs))"
proof (induction rs arbitrary: c acc)
  case Nil
  then show ?case
    by (auto simp: ids_of_def post_init_loop_seen post_init_loop_None)
next
  case (Cons r rs)
  from Cons.prems have c: "c = Some r" and p: "path h (parent (h r)) rs e"
    by simp_all
  from Cons.prems have new: "cat_id (h r) \<notin> acc"
    by (auto simp: ids_of_def)
  have d: "distinct (ids_of h rs)"
    using Cons.prems by (simp add: ids_of_def)
  have i: "set (ids_of h rs) \<inter> insert (cat_id (h r)) acc = {}"
    using Cons.prems by (auto simp: ids_of_def)
  have e: "e = None \<or>
      (\<exists>r'. e = Some r' \<and> cat_id (h r') \<in> insert (cat_id (h r)) acc \<union> set (ids_of h rs))"
    using Cons.prems(4) by (auto simp: ids_of_def)
  have "post_init_loop h (parent (h r)) (insert (cat_id (h r)) acc) =
        Some (insert (cat_id (h r)) acc \<union> set (ids_of h rs))"
    by (rule Cons.IH [OF p d i e])
  then show ?case
    using c new by (simp add: post_init_loop_step ids_of_def)
qed

text \<open>
  On a chain that reaches \<^verbatim>\<open>None\<close> the loop ends, whatever the ids are, and collects
  ids of the chain only.
\<close>

lemma post_init_loop_chain_bounds:
  "path h c rs None \<Longrightarrow>
   \<exists>S. post_init_loop h c acc = Some S \<and> acc \<subseteq> S \<and> S \<subseteq> acc \<union> set (ids_of h rs)"
proof (induction rs arbitrary: c acc)
  case Nil
  then show ?case by (simp add: post_init_loop_None)
next
  case (Cons r rs)
  from Cons.prems have c: "c = Some r" and p: "path h (parent (h r)) rs None"
    by simp_all
  show ?case
  proof (cases "cat_id (h r) \<in> acc")
    case True
    then show ?thesis using c by (simp add: post_init_loop_seen)
  next
    case False
    from Cons.IH [OF p, of "insert (cat_id (h r)) acc"]
    obtain S where "post_init_loop h (parent (h r)) (insert (cat_id (h r)) acc) = Some S"
      and "insert (cat_id (h r)) acc \<subseteq> S"
      and "S \<subseteq> insert (cat_id (h r)) acc \<union> set (ids_of h rs)"
      by blast
    then show ?thesis
      using c False by (auto simp: post_init_loop_step ids_of_def)
  qed
qed

text \<open>
  Every round that goes on adds an id of the store that was not yet collected: in a store
  with finitely many ids the loop ends.
\<close>

lemma post_init_loop_terminates:
  assumes "finite (range (\<lambda>r. cat_id (h r)))"
  shows "\<exists>S. post_init_loop h c acc = Some S"
proof (induction "card (range (\<lambda>r. cat_id (h r)) - acc)" arbitrary: c acc rule: less_induct)
  case less
  show ?case
  proof (cases c)
    case None
    then show ?thesis by (simp add: post_init_loop_None)
  next
    case (Some r)
    show ?thesis
    proof (cases "cat_id (h r) \<in> acc")
      case True
      then show ?thesis using Some by (simp add: post_init_loop_seen)
    next
      case False
      have "range (\<lambda>r. cat_id (h r)) - insert (cat_id (h r)) acc
              \<subset> range (\<lambda>r. cat_id (h r)) - acc"
        using False by auto
      then have "card (range (\<lambda>r. cat_id (h r)) - insert (cat_id (h r)) acc)
                   < card (range (\<lambda>r. cat_id (h r)) - acc)"
        using assms by (intro psubset_card_mono) auto
      from less [OF this] show ?thesis
        using Some False by (simp add: post_init_loop_step)
    qed
  qed
qed

subsection \<open>Chains\<close>

lemma path_append:
  "path h c (xs @ ys) e \<longleftrightarrow> (\<exists>m. path h c xs m \<and> path h m ys e)"
  by (induction xs arbitrary: c) auto

lemma path_to_None_unique:
  "path h c rs None \<Longrightarrow> path h c rs' None \<Longrightarrow> rs = rs'"
proof (induction rs arbitrary: c rs')
  case Nil
  then show ?case by (cases rs') auto
next
  case (Cons r rs)
  then show ?case by (cases rs') auto
qed

text \<open>A chain that reaches \<^verbatim>\<open>None\<close> meets no object twice: it is acyclic.\<close>

lemma path_to_None_distinct: "path h c rs None \<Longrightarrow> distinct rs"
proof (induction rs arbitrary: c)
  case Nil
  then show ?case by simp
next
  case (Cons r rs)
  from Cons.prems have p: "path h (parent (h r)) rs None" by simp
  have "r \<notin> set rs"
  proof
    assume "r \<in> set rs"
    then obtain xs ys where rs: "rs = xs @ r # ys"
      by (auto dest: split_list)
    with p have q: "path h (parent (h r)) ys None"
      by (auto simp: path_append)
    from q p have "ys = rs" by (rule path_to_None_unique)
    with rs show False by simp
  qed
  with Cons.IH [OF p] show ?case by simp
qed

subsection \<open>Filtering\<close>

lemma get_products_filter:
  "Category_get_products h c ps = filter (\<lambda>p. cat_id (h c) \<in> categories_ids p) ps"
  unfolding Category_get_products_def Product_has_category_def
  by (induction ps) auto

lemma set_parent_cat_id: "cat_id (set_parent h a q x) = cat_id (h x)"
  by (simp add: set_parent_def)

lemma set_parents_cat_id: "cat_id (set_parents h as x) = cat_id (h x)"
  by (induction h as rule: set_parents.induct) (simp_all add: set_parent_cat_id)

lemma find_category_loop_Some:
  "find_category_loop h cs i = Some c \<Longrightarrow> cat_id (h c) = i \<and> c \<in> set cs"
  by (induction cs) (auto split: if_splits)

lemma Product_new_closure:
  "Product_new h sku nm descr pr d new c = Some p \<longleftrightarrow>
     (\<exists>S. post_init_loop h c {} = Some S \<and>
          p = \<lparr>uuid = sku, product_name = nm, product_description = descr, price = pr,
               produced_date = d, is_new = new, category = c, categories_ids = S\<rparr>)"
  by (auto simp: Product_new_def Product_post_init_def)

lemmas sample_categories =
  sample_store_def vehicle_def water_vehicle_def parts_def yacht_cat_def boat_cat_def motor_cat_def

lemmas sample_products = yacht1_def boat1_def motor1_def closure_product_def

lemmas closure_eval =
  Product_new_def Product_post_init_def post_init_loop_step post_init_loop_seen post_init_loop_None

text \<open>
  The data model gives every category an id of its own. Where it is not kept, and two
  objects of one chain carry the same id, the loop stops at the second of them: in
  \<open>dup_store\<close> the chain \<open>0 \<rightarrow> 1 \<rightarrow> 2 \<rightarrow> None\<close> has the ids 1, 1 and 2, and the closure of a
  product of category 0 is \<open>{1}\<close>.
\<close>

lemma repeated_id_ends_walk:
  "path dup_store (Some 0) [0, 1, 2] None \<and>
   Product_new dup_store ''SKU'' ''P'' [] 1 738307 True (Some 0)
     = Some (closure_product ''SKU'' ''P'' (Some 0) {1}) \<and>
   set (ids_of dup_store [0, 1, 2]) = {1, 2}"
  by (simp add: dup_store_def closure_eval closure_product_def ids_of_def)

lemma unique_ids_distinct:
  "path h c rs None \<Longrightarrow> inj_on (\<lambda>r. cat_id (h r)) (set rs) \<Longrightarrow> distinct (ids_of h rs)"
  by (simp add: ids_of_def distinct_map path_to_None_distinct)

text \<open>
  C2. Let \<^verbatim>\<open>c0 -> c1 -> ... -> cn -> None\<close> be a category chain; reaching \<^verbatim>\<open>None\<close>, it
  is acyclic. Constructing a product of category \<^verbatim>\<open>c0\<close> ends, and its closure holds ids
  of the chain only, so \<^verbatim>\<open>has_category\<close> is false for every category whose id is not
  in the chain. With the ids of the data model, which different categories do not share
  (here required of the objects of the chain only), the closure is the set of the chain's
  ids: \<^verbatim>\<open>has_category\<close> is true for every object of the chain, and for a category
  exactly when its id is in the chain. For a product constructed with no category the
  closure is empty and \<^verbatim>\<open>has_category\<close> is false for every category.
\<close>

theorem closure_of_acyclic_chain:
  "(path h c rs None \<longrightarrow>
      (\<exists>p. Product_new h sku nm descr pr d new c = Some p \<and>
           categories_ids p \<subseteq> set (ids_of h rs) \<and>
           (\<forall>x. cat_id (h x) \<notin> set (ids_of h rs) \<longrightarrow> \<not> Product_has_category h p x) \<and>
           (inj_on (\<lambda>r. cat_id (h r)) (set rs) \<longrightarrow>
              categories_ids p = set (ids_of h rs) \<and>
              (\<forall>x\<in>set rs. Product_has_category h p x) \<and>
              (\<forall>x. Product_has_category h p x \<longleftrightarrow> cat_id (h x) \<in> set (ids_of h rs))))) \<and>
   (\<exists>p. Product_new h sku nm descr pr d new None = Some p \<and>
        categories_ids p = {} \<and> (\<forall>x. \<not> Product_has_category h p x))"
proof (intro conjI impI)
  assume a: "path h c rs None"
  from post_init_loop_chain_bounds [OF a, of "{}"]
  obtain S where S: "post_init_loop h c {} = Some S" and sub: "S \<subseteq> set (ids_of h rs)"
    by auto
  have eq: "S = set (ids_of h rs)" if "inj_on (\<lambda>r. cat_id (h r)) (set rs)"
    using post_init_loop_path [of h c rs None "{}"] a unique_ids_distinct [OF a that] S
    by simp
  let ?p = "\<lparr>uuid = sku, product_name = nm, product_description = descr, price = pr,
             produced_date = d, is_new = new, category = c, categories_ids = S\<rparr>"
  have "Product_new h sku nm descr pr d new c = Some ?p"
    using S by (simp add: Product_new_def Product_post_init_def)
  moreover have "categories_ids ?p \<subseteq> set (ids_of h rs)"
    using sub by simp
  moreover have "\<forall>x. cat_id (h x) \<notin> set (ids_of h rs) \<longrightarrow> \<not> Product_has_category h ?p x"
    using sub by (auto simp: Product_has_category_def)
  moreover have "inj_on (\<lambda>r. cat_id (h r)) (set rs) \<longrightarrow>
      categories_ids ?p = set (ids_of h rs) \<and> (\<forall>x\<in>set rs. Product_has_category h ?p x) \<and>
      (\<forall>x. Product_has_category h ?p x \<longleftrightarrow> cat_id (h x) \<in> set (ids_of h rs))"
    using eq by (auto simp: Product_has_category_def ids_of_def)
  ultimately show "\<exists>p. Product_new h sku nm descr pr d new c = Some p \<and>
           categories_ids p \<subseteq> set (ids_of h rs) \<and>
           (\<forall>x. cat_id (h x) \<notin> set (ids_of h rs) \<longrightarrow> \<not> Product_has_category h p x) \<and>
           (inj_on (\<lambda>r. cat_id (h r)) (set rs) \<longrightarrow>
              categories_ids p = set (ids_of h rs) \<and>
              (\<forall>x\<in>set rs. Product_has_category h p x) \<and>
              (\<forall>x. Product_has_category h p x \<longleftrightarrow> cat_id (h x) \<in> set (ids_of h rs)))"
    by blast
next
  show "\<exists>p. Product_new h sku nm descr pr d new None = Some p \<and>
        categories_ids p = {} \<and> (\<forall>x. \<not> Product_has_category h p x)"
    by (simp add: Product_new_def Product_post_init_def Product_has_category_def
        post_init_loop_None)
qed

text \<open>
  The chain Yacht(1000), Water Vehicle(100), Vehicle(1) of the sample data: the product's
  closure is \<open>{1, 100, 1000}\<close>; it has the three categories of the chain and not the
  category Parts.
\<close>

theorem closure_of_acyclic_chain_witness:
  "path sample_store (Some 3) [3, 1, 0] None \<and>
   inj_on (\<lambda>r. cat_id (sample_store r)) (set [3, 1, 0]) \<and>
   Product_new sample_store ''SKU001'' ''Yacht X'' [] 1 738307 True (Some 3) = Some yacht1 \<and>
   categories_ids yacht1 = {1, 100, 1000} \<and>
   Product_has_category sample_store yacht1 3 \<and>
   Product_has_category sample_store yacht1 1 \<and>
   Product_has_category sample_store yacht1 0 \<and>
   \<not> Product_has_category sample_store yacht1 2"
proof -
  have h: "path sample_store (Some 3) [3, 1, 0] None"
    "inj_on (\<lambda>r. cat_id (sample_store r)) (set [3, 1, 0])"
    by (simp_all add: sample_categories)
  have n: "Product_new sample_store ''SKU001'' ''Yacht X'' [] 1 738307 True (Some 3) = Some yacht1"
    by (simp add: closure_eval sample_categories sample_products)
  have i: "set (ids_of sample_store [3, 1, 0]) = {1, 100, 1000}"
    "cat_id (sample_store 2) \<notin> set (ids_of sample_store [3, 1, 0])"
    by (auto simp: ids_of_def sample_categories)
  from closure_of_acyclic_chain
         [of sample_store "Some 3" "[3, 1, 0]" "''SKU001''" "''Yacht X''" "[]" 1 738307 True]
  show ?thesis
    using h n i by auto
qed

text \<open>
  C3. When two category objects are each other's parent, constructing a product of the
  first ends, and the closure is the set of their two ids. In general the loop follows
  the parents, collecting ids that are new, and stops with what it has collected as soon
  as it arrives at \<^verbatim>\<open>None\<close> or at an object whose id is already in the set; in a store
  with finitely many ids it always ends.
\<close>

theorem cyclic_chain_terminates:
  "(parent (h c0) = Some c1 \<and> parent (h c1) = Some c0 \<longrightarrow>
      (\<exists>p. Product_new h sku nm descr pr d new (Some c0) = Some p \<and>
           categories_ids p = {cat_id (h c0), cat_id (h c1)})) \<and>
   (path h c rs e \<and> distinct (ids_of h rs) \<and> set (ids_of h rs) \<inter> acc = {} \<and>
    (e = None \<or> (\<exists>r. e = Some r \<and> cat_id (h r) \<in> acc \<union> set (ids_of h rs))) \<longrightarrow>
      post_init_loop h c acc = Some (acc \<union> set (ids_of h rs))) \<and>
   (finite (range (\<lambda>r. cat_id (h r))) \<longrightarrow> (\<exists>S. post_init_loop h c acc = Some S))"
proof (intro conjI impI)
  assume a: "parent (h c0) = Some c1 \<and> parent (h c1) = Some c0"
  have "post_init_loop h (Some c0) {} = Some {cat_id (h c0), cat_id (h c1)}"
  proof (cases "cat_id (h c1) = cat_id (h c0)")
    case True
    then show ?thesis
      using a by (simp add: post_init_loop_step post_init_loop_seen)
  next
    case False
    then show ?thesis
      using a by (simp add: post_init_loop_step post_init_loop_seen insert_commute)
  qed
  then show "\<exists>p. Product_new h sku nm descr pr d new (Some c0) = Some p \<and>
           categories_ids p = {cat_id (h c0), cat_id (h c1)}"
    by (simp add: Product_new_def Product_post_init_def)
next
  assume "path h c rs e \<and> distinct (ids_of h rs) \<and> set (ids_of h rs) \<inter> acc = {} \<and>
    (e = None \<or> (\<exists>r. e = Some r \<and> cat_id (h r) \<in> acc \<union> set (ids_of h rs)))"
  then show "post_init_loop h c acc = Some (acc \<union> set (ids_of h rs))"
    using post_init_loop_path [of h c rs e acc] by blast
next
  assume "finite (range (\<lambda>r. cat_id (h r)))"
  then show "\<exists>S. post_init_loop h c acc = Some S"
    by (rule post_init_loop_terminates)
qed

text \<open>The two objects of \<open>cyclic_store\<close>, with the ids 7 and 8.\<close>

theorem cyclic_chain_terminates_witness:
  "parent (cyclic_store 0) = Some 1 \<and> parent (cyclic_store 1) = Some 0 \<and>
   Product_new cyclic_store ''SKU'' ''P'' [] 1 738307 True (Some 0)
     = Some (closure_product ''SKU'' ''P'' (Some 0) {7, 8}) \<and>
   path cyclic_store (Some 0) [0, 1] (Some 0) \<and>
   post_init_loop cyclic_store (Some 0) {} = Some {7, 8} \<and>
   finite (range (\<lambda>r. cat_id (cyclic_store r)))"
proof -
  have h: "parent (cyclic_store 0) = Some 1 \<and> parent (cyclic_store 1) = Some 0"
    by (simp add: cyclic_store_def)
  have p: "path cyclic_store (Some 0) [0, 1] (Some 0) \<and> distinct (ids_of cyclic_store [0, 1]) \<and>
      set (ids_of cyclic_store [0, 1]) \<inter> {} = {} \<and>
      (Some 0 = (None :: ref option) \<or>
       (\<exists>r. Some 0 = Some r \<and> cat_id (cyclic_store r) \<in> {} \<union> set (ids_of cyclic_store [0, 1])))"
    by (simp add: cyclic_store_def ids_of_def)
  have "cat_id (cyclic_store r) \<in> {1, 7, 8}" for r
    by (simp add: cyclic_store_def vehicle_def)
  then have "range (\<lambda>r. cat_id (cyclic_store r)) \<subseteq> {1, 7, 8}"
    by blast
  then have f: "finite (range (\<lambda>r. cat_id (cyclic_store r)))"
    by (rule finite_subset) simp
  from cyclic_chain_terminates
         [of cyclic_store 0 1 "''SKU''" "''P''" "[]" 1 738307 True "Some 0" "[0, 1]" "Some 0" "{}"]
  show ?thesis
    using h p f
    by (auto simp: cyclic_store_def ids_of_def Product_new_closure closure_product_def)
qed

text \<open>
  C4. \<^verbatim>\<open>Category.get_products(candidates)\<close> is the list of those candidates whose
  closure contains the category's id, in the order of the input (a subsequence of it);
  \<^verbatim>\<open>Inventory.get_products_by_category\<close> applies it to the inventory's products. In
  the sample tree Vehicle(1), Water Vehicle(100), Yacht(1000), a product constructed with
  the category Yacht is returned by Vehicle (object 0) and not by Parts (object 2).
\<close>

theorem get_products_is_ordered_filter:
  "Category_get_products h c ps = filter (\<lambda>p. cat_id (h c) \<in> categories_ids p) ps \<and>
   subseq (Category_get_products h c ps) ps \<and>
   Inventory_get_products_by_category h stock c
     = filter (\<lambda>p. cat_id (h c) \<in> categories_ids p) (products stock) \<and>
   Product_new sample_store ''SKU001'' ''Yacht X'' [] 1 738307 True (Some 3) = Some yacht1 \<and>
   Category_get_products sample_store 0 [yacht1] = [yacht1] \<and>
   Category_get_products sample_store 2 [yacht1] = []"
proof -
  have "Product_new sample_store ''SKU001'' ''Yacht X'' [] 1 738307 True (Some 3) = Some yacht1"
    by (simp add: closure_eval sample_categories sample_products)
  moreover have "Category_get_products sample_store 0 [yacht1] = [yacht1]"
    by (simp add: get_products_filter sample_categories sample_products)
  moreover have "Category_get_products sample_store 2 [yacht1] = []"
    by (simp add: get_products_filter sample_categories sample_products)
  ultimately show ?thesis
    by (simp add: get_products_filter Inventory_get_products_by_category_def)
qed

text \<open>
  Of the yacht, the motor and the boat, Water Vehicle (object 1) returns the yacht and the
  boat, in this order.
\<close>

theorem get_products_is_ordered_filter_witness:
  "Category_get_products sample_store 1 [yacht1, motor1, boat1] = [yacht1, boat1] \<and>
   Inventory_get_products_by_category sample_store
     \<lparr>inventory_description = ''Boat Store Main Warehouse'', products = [yacht1, motor1, boat1]\<rparr> 1
     = [yacht1, boat1]"
  using get_products_is_ordered_filter
          [of sample_store 1 "[yacht1, motor1, boat1]"
              "\<lparr>inventory_description = ''Boat Store Main Warehouse'',
                products = [yacht1, motor1, boat1]\<rparr>"]
  by (simp add: sample_categories sample_products)

text \<open>
  C7. The closure of a product is the set that the loop computed in the store in which
  the product was constructed. After any sequence of assignments to \<^verbatim>\<open>parent\<close> links
  of category objects, \<^verbatim>\<open>has_category\<close> of the product answers for every category as
  before, that is, from the chain as it was at construction.
\<close>

theorem closure_is_fixed_at_construction:
  assumes "Product_new h sku nm descr pr d new c = Some p"
  shows "post_init_loop h c {} = Some (categories_ids p) \<and>
         Product_has_category (set_parent h a q) p x = Product_has_category h p x \<and>
         Product_has_category (set_parents h as) p x = Product_has_category h p x \<and>
         (Product_has_category (set_parents h as) p x \<longleftrightarrow>
            (\<exists>S. post_init_loop h c {} = Some S \<and> cat_id (h x) \<in> S))"
proof -
  from assms have "post_init_loop h c {} = Some (categories_ids p)"
    by (auto simp: Product_new_closure)
  then show ?thesis
    by (simp add: Product_has_category_def set_parent_cat_id set_parents_cat_id)
qed

text \<open>
  The yacht was constructed while Water Vehicle was under Vehicle. After Water Vehicle is
  moved under Parts, the yacht still has the category Vehicle and not the category Parts;
  a product constructed now with the same category gets the closure \<open>{2, 100, 1000}\<close>.
\<close>

theorem closure_is_fixed_at_construction_witness:
  "Product_new sample_store ''SKU001'' ''Yacht X'' [] 1 738307 True (Some 3) = Some yacht1 \<and>
   Product_has_category (set_parent sample_store 1 (Some 2)) yacht1 0 \<and>
   \<not> Product_has_category (set_parent sample_store 1 (Some 2)) yacht1 2 \<and>
   Product_has_category (set_parents sample_store [(1, Some 2), (2, Some 0)]) yacht1 0 \<and>
   Product_new (set_parent sample_store 1 (Some 2)) ''SKU001'' ''Yacht X'' [] 1 738307 True (Some 3)
     = Some (closure_product ''SKU001'' ''Yacht X'' (Some 3) {2, 100, 1000})"
proof -
  have h: "Product_new sample_store ''SKU001'' ''Yacht X'' [] 1 738307 True (Some 3) = Some yacht1"
    by (simp add: closure_eval sample_categories sample_products)
  have a: "Product_has_category sample_store yacht1 0"
    "\<not> Product_has_category sample_store yacht1 2"
    by (simp_all add: Product_has_category_def sample_categories sample_products)
  have n: "Product_new (set_parent sample_store 1 (Some 2)) ''SKU001'' ''Yacht X'' [] 1 738307 True
             (Some 3) = Some (closure_product ''SKU001'' ''Yacht X'' (Some 3) {2, 100, 1000})"
    by (simp add: closure_eval set_parent_def sample_categories closure_product_def)
  from closure_is_fixed_at_construction [OF h, of 1 "Some 2" 0 "[(1, Some 2), (2, Some 0)]"]
       closure_is_fixed_at_construction [OF h, of 1 "Some 2" 2 "[]"]
  show ?thesis
    using h a n by simp
qed

text \<open>
  C10. \<^verbatim>\<open>has_category\<close> reads nothing of its argument but \<^verbatim>\<open>cat_id\<close>: two category
  objects with the same id get the same answer from every product and return the same
  products. So the object that \<^verbatim>\<open>AppData.find_category\<close> finds for the id of a
  category filters an inventory as that category does.
\<close>

theorem category_membership_by_id:
  "(cat_id (h c) = cat_id (h c') \<longrightarrow>
      Product_has_category h p c = Product_has_category h p c' \<and>
      Category_get_products h c ps = Category_get_products h c' ps) \<and>
   (AppData_find_category h d (cat_id (h c)) = Some c' \<longrightarrow>
      Inventory_get_products_by_category h stock c' = Inventory_get_products_by_category h stock c)"
proof (intro conjI impI)
  assume "cat_id (h c) = cat_id (h c')"
  then show "Product_has_category h p c = Product_has_category h p c'"
    and "Category_get_products h c ps = Category_get_products h c' ps"
    by (simp_all add: Product_has_category_def get_products_filter)
next
  assume "AppData_find_category h d (cat_id (h c)) = Some c'"
  then have "cat_id (h c') = cat_id (h c)"
    by (auto simp: AppData_find_category_def dest: find_category_loop_Some)
  then show "Inventory_get_products_by_category h stock c'
               = Inventory_get_products_by_category h stock c"
    by (simp add: Inventory_get_products_by_category_def get_products_filter)
qed

text \<open>
  The yacht's ancestor Vehicle is object 0; the data store lists object 6, another object
  with the id 1. Looking up the id 1 finds object 6, which returns the yacht as object 0
  does.
\<close>

theorem category_membership_by_id_witness:
  "cat_id (sample_store 0) = cat_id (sample_store 6) \<and> (0 :: ref) \<noteq> 6 \<and>
   AppData_find_category sample_store (sample_data\<lparr>categories := [3, 4, 5, 6, 1, 2]\<rparr>)
       (cat_id (sample_store 0)) = Some 6 \<and>
   Product_has_category sample_store yacht1 6 \<and>
   Category_get_products sample_store 6 [yacht1, motor1, boat1] = [yacht1, boat1] \<and>
   Category_get_products sample_store 0 [yacht1, motor1, boat1] = [yacht1, boat1]"
proof -
  have h: "cat_id (sample_store 0) = cat_id (sample_store 6)"
    by (simp add: sample_categories)
  have f: "AppData_find_category sample_store (sample_data\<lparr>categories := [3, 4, 5, 6, 1, 2]\<rparr>)
       (cat_id (sample_store 0)) = Some 6"
    by (simp add: AppData_find_category_def sample_data_def sample_categories)
  have g: "Category_get_products sample_store 0 [yacht1, motor1, boat1] = [yacht1, boat1]"
    by (simp add: get_products_filter sample_categories sample_products)
  have k: "Product_has_category sample_store yacht1 0"
    by (simp add: Product_has_category_def sample_categories sample_products)
  from category_membership_by_id
         [of sample_store 0 6 yacht1 "[yacht1, motor1, boat1]"
             "sample_data\<lparr>categories := [3, 4, 5, 6, 1, 2]\<rparr>"]
  show ?thesis
    using h f g k by simp
qed

section \<open>Properties of update and authentication\<close>

lemma update_loop_other:
  "k \<notin> fst ` set kwargs \<Longrightarrow> fst ` set kwargs \<inter> descriptor_names = {} \<Longrightarrow>
   fst (update_loop cls self kwargs) k = self k"
proof (induction kwargs arbitrary: self)
  case Nil
  then show ?case by simp
next
  case (Cons kv kwargs)
  obtain k' v' where kv: "kv = (k', v')" by (cases kv)
  have s: "setattr self k' v' = Inr (self(k' \<mapsto> v'))"
    using Cons.prems(2) kv by (auto simp: setattr_def descriptor_names_def)
  have "k \<notin> fst ` set kwargs" "fst ` set kwargs \<inter> descriptor_names = {}" "k \<noteq> k'"
    using Cons.prems kv by auto
  then show ?case
    using kv s Cons.IH by simp
qed

text \<open>
  What \<^verbatim>\<open>update\<close> does for a dictionary without the key \<^verbatim>\<open>self\<close> and without the
  three descriptor names: it raises nothing, an attribute that the dictionary names and
  that existed has the dictionary's value, a name that is no attribute is none
  afterwards, and every other attribute has its old value.
\<close>

lemma update_loop_ordinary_keys:
  "distinct (map fst kwargs) \<Longrightarrow> fst ` set kwargs \<inter> descriptor_names = {} \<Longrightarrow>
   snd (update_loop cls self kwargs) = None \<and>
   fst (update_loop cls self kwargs) k =
     (case map_of kwargs k of
        None \<Rightarrow> self k
      | Some v \<Rightarrow> if hasattr cls self k then Some v else None)"
proof (induction kwargs arbitrary: self)
  case Nil
  then show ?case by simp
next
  case (Cons kv kwargs)
  obtain k' v' where kv: "kv = (k', v')" by (cases kv)
  have s: "setattr self k' v' = Inr (self(k' \<mapsto> v'))"
    using Cons.prems(2) kv by (auto simp: setattr_def descriptor_names_def)
  have d: "distinct (map fst kwargs)" and n: "fst ` set kwargs \<inter> descriptor_names = {}"
    using Cons.prems by auto
  note IH = Cons.IH [OF d n]
  show ?case
  proof (cases "k = k'")
    case True
    then have o: "k \<notin> fst ` set kwargs" using Cons.prems kv by auto
    have m: "map_of kwargs k = None" using o by (simp add: map_of_eq_None_iff)
    have f: "fst (update_loop cls self' kwargs) k = self' k" for self'
      using o n by (rule update_loop_other)
    show ?thesis
      using True kv s IH m f by (auto simp: hasattr_def)
  next
    case False
    have h: "hasattr cls (self(k' \<mapsto> v')) k = hasattr cls self k"
      using False by (simp add: hasattr_def)
    show ?thesis
      using False kv s IH h by (auto split: option.splits)
  qed
qed

lemma Product_update_ordinary_keys:
  assumes "distinct (map fst kwargs)"
    and "fst ` set kwargs \<inter> insert ''self'' descriptor_names = {}"
  shows "snd (Product_update cls self kwargs) = None \<and>
         fst (Product_update cls self kwargs) k =
           (case map_of kwargs k of
              None \<Rightarrow> self k
            | Some v \<Rightarrow> if hasattr cls self k then Some v else None)"
proof -
  have "''self'' \<notin> fst ` set kwargs" and "fst ` set kwargs \<inter> descriptor_names = {}"
    using assms(2) by auto
  then show ?thesis
    using update_loop_ordinary_keys [OF assms(1), of cls self k]
    by (simp add: Product_update_def)
qed

lemma Product_update_key_self:
  "''self'' \<in> fst ` set kwargs \<Longrightarrow> Product_update cls self kwargs = (self, Some TypeError)"
  by (simp add: Product_update_def)

text \<open>
  C8. The claim does not hold of the code for every mapping. \<^verbatim>\<open>self\<close> names no
  attribute of a product, yet \<^verbatim>\<open>update(**{"self": 1})\<close> raises \<^verbatim>\<open>TypeError\<close> instead of
  ignoring the key; the key \<^verbatim>\<open>__class__\<close> raises \<^verbatim>\<open>TypeError\<close> as well; and the key
  \<^verbatim>\<open>__dict__\<close> with an empty JSON object raises nothing and leaves the product without
  any of its attributes, none of which the mapping names.
\<close>

theorem update_raises_on_key_self:
  "Product_dict yacht1 ''self'' = None \<and>
   Product_update cls (Product_dict yacht1) [(''self'', PyInt 1)]
     = (Product_dict yacht1, Some TypeError) \<and>
   Product_update cls (Product_dict yacht1) [(''__class__'', PyInt 1)]
     = (Product_dict yacht1, Some TypeError) \<and>
   Product_dict yacht1 ''name'' = Some (PyStr ''Yacht X'') \<and>
   Product_update cls (Product_dict yacht1) [(''__dict__'', PyDict [])] = (Map.empty, None)"
  by (simp add: Product_update_def hasattr_def setattr_def descriptor_names_def
      Product_dict_def sample_products)

text \<open>
  C9. \<^verbatim>\<open>User.authenticate(pw)\<close> is true exactly when \<^verbatim>\<open>pw\<close> equals the stored
  credential. It is a function of the user and the candidate alone: it reads one field
  and writes nothing. In the \<^verbatim>\<open>login\<close> command, which calls it after resetting the
  session, a wrong credential for the user found leaves the context as the reset left it
  (no user, no company, no clock reading) and reports invalid credentials.
\<close>

theorem authenticate_compares_credential:
  "(User_authenticate u pw \<longleftrightarrow> password_hash u = pw) \<and>
   (next_user lower (users (data ctx)) nm = Some u \<and> password_hash u \<noteq> pw \<longrightarrow>
      \<not> User_authenticate u pw \<and>
      login lower clk t0 ctx nm pw cname n = (InvalidCredentials, Context_reset_session t0 ctx, n))"
  by (simp add: User_authenticate_def login_def Context_reset_session_def)

text \<open>
  The superuser's name with a wrong password, in the superuser's session. The names
  compared are in lower case already, so \<open>lower\<close> is the identity here.
\<close>

theorem authenticate_compares_credential_witness:
  "next_user (\<lambda>s. s) (users (data superuser_ctx)) ''superuser'' = Some superuser \<and>
   password_hash superuser \<noteq> ''secret'' \<and>
   \<not> User_authenticate superuser ''secret'' \<and>
   User_authenticate superuser ''superuser'' \<and>
   login (\<lambda>s. s) (clock_from 0) 5 superuser_ctx ''superuser'' ''secret'' None 0
     = (InvalidCredentials, \<lparr>data = sample_data, session = Session_init 5\<rparr>, 0)"
proof -
  have h: "next_user (\<lambda>s. s) (users (data superuser_ctx)) ''superuser'' = Some superuser \<and>
      password_hash superuser \<noteq> ''secret''"
    by (simp add: superuser_ctx_def sample_data_def alice_def bob_def superuser_def)
  from authenticate_compares_credential
         [of superuser "''secret''" "\<lambda>s. s" superuser_ctx "''superuser''" "clock_from 0" 5 None 0]
       authenticate_compares_credential
         [of superuser "''superuser''" "\<lambda>s. s" superuser_ctx "''superuser''" "clock_from 0" 5 None 0]
  show ?thesis
    using h by (simp add: superuser_ctx_def Context_reset_session_def superuser_def)
qed

end
